theory Spec2Isabelle
  imports Main "HOL-Library.Sublist"
begin

section \<open>Partition enumerator: \<open>combo_partition\<close>\<close>

text \<open>
  The source computes the pad width of the bit pattern as
  \<^verbatim>\<open>ceil(len(iterable) ** 0.5)\<close>. The model takes the exact integer ceiling of the
  square root (the least \<open>w\<close> with \<open>n \<le> w * w\<close>), found by counting upwards; the
  floating-point computation agrees with it for every length for which the loop
  over \<open>2 ** len\<close> patterns can be run at all.
\<close>

function ceil_sqrt_from :: "nat \<Rightarrow> nat \<Rightarrow> nat" where
  "ceil_sqrt_from w n = (if n \<le> w * w then w else ceil_sqrt_from (Suc w) n)"
  by pat_completeness auto
termination
proof (relation "measure (\<lambda>(w, n). n - w)")
  show "wf (measure (\<lambda>(w, n). n - w))" by simp
next
  fix w n :: nat
  assume "\<not> n \<le> w * w"
  moreover have "w \<le> w * w" by (rule le_square)
  ultimately have "w < n" by linarith
  then show "((Suc w, n), (w, n)) \<in> measure (\<lambda>(w, n). n - w)" by simp
qed

declare ceil_sqrt_from.simps [simp del]

definition ceil_sqrt :: "nat \<Rightarrow> nat" where
  "ceil_sqrt n = ceil_sqrt_from 0 n"

text \<open>
  \<^verbatim>\<open>format(n, 'b')\<close>: the binary digits of \<open>n\<close>, most significant first, with no
  leading zero except for \<open>n = 0\<close>, which prints as \<^verbatim>\<open>0\<close>.
\<close>

definition digit_char :: "nat \<Rightarrow> char" where
  "digit_char d = (if d = 0 then CHR ''0'' else CHR ''1'')"

fun format_b :: "nat \<Rightarrow> string" where
  "format_b n = (if n < 2 then [digit_char n] else format_b (n div 2) @ [digit_char (n mod 2)])"

declare format_b.simps [simp del]

text \<open>
  \<^verbatim>\<open>format(n, '0{w}b')\<close>: the same digits, filled on the left with \<^verbatim>\<open>0\<close> up to the
  minimum width \<open>w\<close>; a longer digit string is never cut.
\<close>

definition format_0b :: "nat \<Rightarrow> nat \<Rightarrow> string" where
  "format_0b w n = replicate (w - length (format_b n)) CHR ''0'' @ format_b n"

text \<open>\<^verbatim>\<open>int(c)\<close> on the characters that \<open>format_0b\<close> produces.\<close>

definition int_of_char :: "char \<Rightarrow> int" where
  "int_of_char c = (if c = CHR ''1'' then 1 else 0)"

text \<open>
  \<^verbatim>\<open>itertools.compress(data, selectors)\<close> keeps the elements of \<open>data\<close> whose selector
  is true and stops at the end of the shorter argument. The selectors are given by
  their truth value.
\<close>

definition compress :: "'a list \<Rightarrow> bool list \<Rightarrow> 'a list" where
  "compress data selectors = map fst (filter snd (zip data selectors))"

text \<open>
  The generator, as the list of the pairs it yields, in order. In the source \<open>a\<close> holds
  the integers \<open>v\<close> (true when non-zero) and \<open>b\<close> the booleans \<^verbatim>\<open>not v\<close>.
\<close>

definition combo_partition :: "'a list \<Rightarrow> ('a list \<times> 'a list) list" where
  "combo_partition iterable =
     (let fmt = ceil_sqrt (length iterable) in
      map (\<lambda>n. let vs = map int_of_char (format_0b fmt n);
                    a = map (\<lambda>v. v \<noteq> 0) vs;
                    b = map (\<lambda>v. \<not> (v \<noteq> 0)) vs
                in (compress iterable a, compress iterable b))
          [0 ..< 2 ^ length iterable - 1])"


text \<open>
  For stating what the enumerator covers: the number that a bit pattern denotes, most
  significant bit first.
\<close>

fun bits_val :: "bool list \<Rightarrow> nat" where
  "bits_val [] = 0"
| "bits_val (b # bs) = (if b then 2 ^ length bs else 0) + bits_val bs"

section \<open>Keys\<close>

datatype error = ValueError | KeyError | AssertionError | AttributeError | IndexError

text \<open>\<^verbatim>\<open>sep.join(parts)\<close>.\<close>

fun str_join :: "string \<Rightarrow> string list \<Rightarrow> string" where
  "str_join sep [] = []"
| "str_join sep [x] = x"
| "str_join sep (x # y # ys) = x @ sep @ str_join sep (y # ys)"

text \<open>
  \<^verbatim>\<open>s.split(sep)\<close> for a one-character separator: the string is cut at every
  occurrence of \<open>sep\<close>, so the result has one more part than \<open>s\<close> has separators
  (the empty string gives one empty part). \<open>cur\<close> is the part being read.
\<close>

fun split_from :: "char \<Rightarrow> string \<Rightarrow> string \<Rightarrow> string list" where
  "split_from sep cur [] = [cur]"
| "split_from sep cur (c # cs) =
     (if c = sep then cur # split_from sep [] cs else split_from sep (cur @ [c]) cs)"

definition str_split :: "char \<Rightarrow> string \<Rightarrow> string list" where
  "str_split sep s = split_from sep [] s"

record Key =
  name :: string
  dims :: "string list"

text \<open>The values \<open>from_str_or_key\<close> and \<open>__eq__\<close> are applied to: a string or a Key.\<close>

datatype pyvalue = Str string | KeyObj Key

text \<open>
  \<^verbatim>\<open>name, dims = value.split(':')\<close> unpacks a list of exactly two parts and raises
  ValueError for any other number of parts. The deep copy of a Key is the same value.
\<close>

definition from_str_or_key :: "pyvalue \<Rightarrow> error + Key" where
  "from_str_or_key v =
     (case v of
        KeyObj k \<Rightarrow> Inr k
      | Str s \<Rightarrow>
          (case str_split CHR '':'' s of
             [nm, ds] \<Rightarrow> Inr \<lparr>name = nm, dims = str_split CHR ''-'' ds\<rparr>
           | _ \<Rightarrow> Inl ValueError))"

definition repr :: "Key \<Rightarrow> string" where
  "repr self = str_join '':'' [name self, str_join ''-'' (dims self)]"

text \<open>
  \<^verbatim>\<open>hash(repr(self))\<close>: the hash of strings is the interpreter's, taken as the
  parameter \<open>H\<close>.
\<close>

definition Key_hash :: "(string \<Rightarrow> int) \<Rightarrow> Key \<Rightarrow> int" where
  "Key_hash H self = H (repr self)"

text \<open>
  \<^verbatim>\<open>repr(self) == other\<close>. Against a string this is string equality. Against a Key
  the string's comparison is not implemented, so the interpreter asks the other
  operand: \<^verbatim>\<open>other.__eq__(repr(self))\<close>, which is \<^verbatim>\<open>repr(other) == repr(self)\<close>.
\<close>

definition Key_eq :: "Key \<Rightarrow> pyvalue \<Rightarrow> bool" where
  "Key_eq self other =
     (case other of
        Str s \<Rightarrow> repr self = s
      | KeyObj k \<Rightarrow> repr k = repr self)"

text \<open>
  The task paired with each aggregated key is the tuple
  \<^verbatim>\<open>(partial(aggregate, dimensions=others), self)\<close>.
\<close>

datatype partial = Partial_aggregate (dimensions: "string list")

definition aggregates :: "Key \<Rightarrow> (Key \<times> partial \<times> Key) list" where
  "aggregates self =
     map (\<lambda>(agg_dims, others).
            (\<lparr>name = name self, dims = agg_dims\<rparr>, (Partial_aggregate others, self)))
         (combo_partition (dims self))"


section \<open>Quantity loader: \<open>quantity_as_xr\<close>\<close>

text \<open>
  The tables and labelled arrays belong to external libraries; they are modelled as far
  as the loader observes them. A table is the ordered list of its named columns, each
  holding one cell per row; cells are of an arbitrary type \<open>'v\<close>. Column names of a
  table and keys of a record are taken to be distinct, as they are in what a scenario
  returns. A table returned by a scenario carries the default positional row index; an
  index built by \<^verbatim>\<open>set_index\<close> is the list of its named levels.
\<close>

type_synonym 'v table = "(string \<times> 'v list) list"

record 'v DataFrame =
  columns :: "'v table"
  index :: "'v table"

text \<open>What \<^verbatim>\<open>getattr(scenario, kind)(name)\<close> returns: a scalar record or a table.\<close>

datatype 'v data = Dict "(string \<times> 'v) list" | Frame "'v table"

text \<open>
  A scenario is seen through attribute lookup: \<open>None\<close> when it has no attribute of
  that name (AttributeError); otherwise the method, which returns data or raises.
\<close>

type_synonym 'v scenario = "string \<Rightarrow> (string \<Rightarrow> error + 'v data) option"

text \<open>\<^verbatim>\<open>pd.DataFrame.from_records([data])\<close>: a table of one row, one column per key.\<close>

definition from_records :: "(string \<times> 'v) list \<Rightarrow> 'v table" where
  "from_records d = map (\<lambda>(k, v). (k, [v])) d"

text \<open>
  \<^verbatim>\<open>data.pop(col)\<close>: \<open>None\<close> stands for KeyError; otherwise the cells of the column
  and the table without it.
\<close>

definition pop :: "string \<Rightarrow> 'v table \<Rightarrow> ('v list \<times> 'v table) option" where
  "pop col data =
     (case map_of data col of
        None \<Rightarrow> None
      | Some cells \<Rightarrow> Some (cells, filter (\<lambda>(c, cs). c \<noteq> col) data))"

text \<open>\<^verbatim>\<open>pd.unique\<close>: the distinct values in order of first appearance.\<close>

fun unique :: "'a list \<Rightarrow> 'a list" where
  "unique [] = []"
| "unique (x # xs) = x # unique (filter (\<lambda>y. y \<noteq> x) xs)"

text \<open>
  Lines 101 to 108: the \<^verbatim>\<open>try\<close> block. KeyError from \<^verbatim>\<open>pop\<close> is caught and gives
  no attributes; the failed assertion is not caught. Assertions are taken to be
  enabled.
\<close>

definition strip_unit :: "'v table \<Rightarrow> error + ('v table \<times> (string \<times> 'v) list)" where
  "strip_unit data =
     (case pop ''unit'' data of
        None \<Rightarrow> Inr (data, [])
      | Some (cells, data') \<Rightarrow>
          (case unique cells of
             [u] \<Rightarrow> Inr (data', [(''unit'', u)])
           | _ \<Rightarrow> Inl AssertionError))"

definition value_columns_table :: "(string \<times> string list) list" where
  "value_columns_table =
     [(''par'', [''value'']),
      (''equ'', [''lvl'', ''mrg'']),
      (''var'', [''lvl'', ''mrg''])]"

text \<open>\<^verbatim>\<open>dims.remove(col)\<close>: removes the first occurrence, ValueError when there is none.\<close>

definition list_remove :: "'a \<Rightarrow> 'a list \<Rightarrow> error + 'a list" where
  "list_remove x xs = (if x \<in> set xs then Inr (remove1 x xs) else Inl ValueError)"

fun remove_each :: "'a list \<Rightarrow> 'a list \<Rightarrow> error + 'a list" where
  "remove_each [] dnames = Inr dnames"
| "remove_each (col # cols) dnames =
     (case list_remove col dnames of
        Inl e \<Rightarrow> Inl e
      | Inr dnames' \<Rightarrow> remove_each cols dnames')"

text \<open>
  \<^verbatim>\<open>data.set_index(dims, inplace=True)\<close>: the named columns become the levels of
  the row index and leave the table.
\<close>

definition set_index :: "string list \<Rightarrow> 'v table \<Rightarrow> 'v DataFrame" where
  "set_index dnames data =
     \<lparr>columns = filter (\<lambda>(c, cells). c \<notin> set dnames) data,
      index = map (\<lambda>d. (d, case map_of data d of Some cells \<Rightarrow> cells | None \<Rightarrow> [])) dnames\<rparr>"

text \<open>
  A labelled array: its name, its dimensions with their sizes, its attributes, and its
  cells, each under its coordinates (one per dimension; a position on the default
  index, a label on a named level).
\<close>

datatype 'v coord = Pos nat | Label 'v

type_synonym 'v cells = "('v coord list \<times> 'v) list"

record 'v Dataset =
  ds_dims :: "(string \<times> nat) list"
  ds_vars :: "(string \<times> 'v cells) list"

record 'v DataArray =
  da_name :: "string option"
  da_dims :: "(string \<times> nat) list"
  da_attrs :: "(string \<times> 'v) list"
  da_cells :: "'v cells"

definition nrows :: "'v table \<Rightarrow> nat" where
  "nrows data = (case data of [] \<Rightarrow> 0 | (c, cells) # _ \<Rightarrow> length cells)"

text \<open>
  \<^verbatim>\<open>xr.Dataset.from_dataframe\<close>. The default index gives one dimension called
  \<^verbatim>\<open>index\<close>, as long as the table; a single named level gives one dimension of that
  name; several levels give one dimension each, as long as the level has distinct
  labels, and the conversion raises ValueError when two rows carry the same tuple of
  labels. Every column becomes a variable over all the dimensions. The cells listed
  for a variable are those of the table's rows; with several levels the array spans the
  whole product of the levels, and its positions that no row gives hold the missing
  value, which is not listed.
\<close>

definition index_tuples :: "'v table \<Rightarrow> nat \<Rightarrow> 'v list list" where
  "index_tuples levels n = map (\<lambda>i. map (\<lambda>(d, labels). labels ! i) levels) [0 ..< n]"

definition from_dataframe :: "'v DataFrame \<Rightarrow> error + 'v Dataset" where
  "from_dataframe df =
     (let n = nrows (columns df) in
      case index df of
        [] \<Rightarrow>
          Inr \<lparr>ds_dims = [(''index'', n)],
               ds_vars = map (\<lambda>(c, cells). (c, zip (map (\<lambda>i. [Pos i]) [0 ..< n]) cells))
                             (columns df)\<rparr>
      | [(d, labels)] \<Rightarrow>
          Inr \<lparr>ds_dims = [(d, n)],
               ds_vars = map (\<lambda>(c, cells). (c, zip (map (\<lambda>l. [Label l]) labels) cells))
                             (columns df)\<rparr>
      | levels \<Rightarrow>
          if distinct (index_tuples levels n)
          then Inr \<lparr>ds_dims = map (\<lambda>(d, labels). (d, length (unique labels))) levels,
                    ds_vars = map (\<lambda>(c, cells).
                                     (c, zip (map (map Label) (index_tuples levels n)) cells))
                                  (columns df)\<rparr>
          else Inl ValueError)"

text \<open>
  \<^verbatim>\<open>ds.squeeze(dim, drop=True)\<close>: KeyError when \<open>dim\<close> is no dimension, ValueError
  when it is longer than one, IndexError when it is empty; otherwise the dimension and
  its coordinate are dropped.
\<close>

definition drop_at :: "nat \<Rightarrow> 'a list \<Rightarrow> 'a list" where
  "drop_at p xs = take p xs @ drop (Suc p) xs"

definition squeeze :: "string \<Rightarrow> 'v Dataset \<Rightarrow> error + 'v Dataset" where
  "squeeze dim ds =
     (case map_of (ds_dims ds) dim of
        None \<Rightarrow> Inl KeyError
      | Some n \<Rightarrow>
          if n > 1 then Inl ValueError
          else if n = 0 then Inl IndexError
          else
            (let p = length (takeWhile (\<lambda>(d, k). d \<noteq> dim) (ds_dims ds))
             in Inr \<lparr>ds_dims = drop_at p (ds_dims ds),
                     ds_vars = map (\<lambda>(c, cells). (c, map (\<lambda>(co, v). (drop_at p co, v)) cells))
                                   (ds_vars ds)\<rparr>))"

text \<open>Lines 128 to 132: only KeyError is caught.\<close>

definition squeeze_index :: "'v Dataset \<Rightarrow> error + 'v Dataset" where
  "squeeze_index ds =
     (case squeeze ''index'' ds of
        Inr ds' \<Rightarrow> Inr ds'
      | Inl e \<Rightarrow> (if e = KeyError then Inr ds else Inl e))"

text \<open>\<^verbatim>\<open>ds[col].assign_attrs(attrs).rename(name)\<close>.\<close>

definition named_array ::
  "'v Dataset \<Rightarrow> (string \<times> 'v) list \<Rightarrow> string \<Rightarrow> string \<Rightarrow> error + 'v DataArray" where
  "named_array ds attrs nm col =
     (case map_of (ds_vars ds) col of
        None \<Rightarrow> Inl KeyError
      | Some cells \<Rightarrow>
          Inr \<lparr>da_name = Some nm, da_dims = ds_dims ds, da_attrs = attrs, da_cells = cells\<rparr>)"

fun collect :: "('a \<Rightarrow> error + 'b) \<Rightarrow> 'a list \<Rightarrow> error + ('a \<times> 'b) list" where
  "collect f [] = Inr []"
| "collect f (x # xs) =
     (case f x of
        Inl e \<Rightarrow> Inl e
      | Inr y \<Rightarrow>
          (case collect f xs of
             Inl e \<Rightarrow> Inl e
           | Inr ys \<Rightarrow> Inr ((x, y) # ys)))"

text \<open>Lines 110 to 136, on the table left by the \<^verbatim>\<open>try\<close> block.\<close>

definition to_arrays ::
  "'v table \<Rightarrow> (string \<times> 'v) list \<Rightarrow> string \<Rightarrow> string
     \<Rightarrow> error + (string \<times> 'v DataArray) list" where
  "to_arrays data attrs nm kind =
     (let dnames = map fst data in
      case map_of value_columns_table kind of
        None \<Rightarrow> Inl KeyError
      | Some value_columns \<Rightarrow>
          (case remove_each value_columns dnames of
             Inl e \<Rightarrow> Inl e
           | Inr dnames' \<Rightarrow>
               (let df = (if length dnames' \<noteq> 0 then set_index dnames' data
                          else \<lparr>columns = data, index = []\<rparr>)
                in case from_dataframe df of
                     Inl e \<Rightarrow> Inl e
                   | Inr ds \<Rightarrow>
                       (case squeeze_index ds of
                          Inl e \<Rightarrow> Inl e
                        | Inr ds' \<Rightarrow> collect (named_array ds' attrs nm) value_columns))))"

definition quantity_as_xr ::
  "'v scenario \<Rightarrow> string \<Rightarrow> string \<Rightarrow> error + (string \<times> 'v DataArray) list" where
  "quantity_as_xr scenario nm kind =
     (case scenario kind of
        None \<Rightarrow> Inl AttributeError
      | Some method \<Rightarrow>
          (case method nm of
             Inl e \<Rightarrow> Inl e
           | Inr raw \<Rightarrow>
               (let data = (case raw of Dict d \<Rightarrow> from_records d | Frame t \<Rightarrow> t)
                in case strip_unit data of
                     Inl e \<Rightarrow> Inl e
                   | Inr (data', attrs) \<Rightarrow> to_arrays data' attrs nm kind)))"


section \<open>Properties of the partition enumerator\<close>

lemma compress_Nil [simp]: "compress [] bs = []" "compress xs [] = []"
  by (simp_all add: compress_def)

lemma compress_Cons [simp]:
  "compress (x # xs) (b # bs) = (if b then x # compress xs bs else compress xs bs)"
  by (simp add: compress_def)

lemma length_compress: "length (compress xs bs) \<le> length xs"
  by (induction xs arbitrary: bs) (case_tac bs; auto simp: le_SucI)+

lemma compress_self:
  "compress xs bs = xs \<Longrightarrow> length xs \<le> length bs \<and> take (length xs) bs = replicate (length xs) True"
proof (induction xs arbitrary: bs)
  case Nil
  show ?case by simp
next
  case (Cons x xs)
  show ?case
  proof (cases bs)
    case Nil
    with Cons.prems show ?thesis by simp
  next
    case (Cons b bs')
    show ?thesis
    proof (cases b)
      case True
      with Cons.prems Cons Cons.IH [of bs'] show ?thesis by simp
    next
      case False
      with Cons.prems Cons have "compress xs bs' = x # xs" by simp
      then have "length (compress xs bs') = Suc (length xs)" by simp
      with length_compress [of xs bs'] show ?thesis by simp
    qed
  qed
qed

lemma bits_val_append: "bits_val (xs @ ys) = bits_val xs * 2 ^ length ys + bits_val ys"
  by (induction xs) (simp_all add: power_add algebra_simps)

lemma bits_val_snoc: "bits_val (bs @ [b]) = 2 * bits_val bs + (if b then 1 else 0)"
  by (simp add: bits_val_append)

lemma bits_val_replicate_False [simp]: "bits_val (replicate m False) = 0"
  by (induction m) simp_all

lemma bits_val_replicate_True: "Suc (bits_val (replicate m True)) = 2 ^ m"
  by (induction m) simp_all

lemma bits_val_bound: "Suc (bits_val bs) \<le> 2 ^ length bs"
  by (induction bs) auto

lemma bits_val_max:
  "Suc (bits_val bs) = 2 ^ length bs \<Longrightarrow> bs = replicate (length bs) True"
proof (induction bs)
  case Nil
  show ?case by simp
next
  case (Cons b bs)
  show ?case
  proof (cases b)
    case True
    with Cons.prems have "Suc (bits_val bs) = 2 ^ length bs" by simp
    with Cons.IH True show ?thesis by simp
  next
    case False
    with Cons.prems bits_val_bound [of bs] show ?thesis by simp
  qed
qed

lemma bits_val_prefix_ones:
  assumes "n \<le> length bs" "take n bs = replicate n True"
  shows "2 ^ n \<le> Suc (bits_val bs)"
proof -
  have "bs = replicate n True @ drop n bs"
    using assms(2) append_take_drop_id [of n bs] by simp
  then have "bits_val bs = bits_val (replicate n True) * 2 ^ length (drop n bs) + bits_val (drop n bs)"
    using bits_val_append [of "replicate n True" "drop n bs"] by simp
  moreover have "bits_val (replicate n True) \<le> bits_val (replicate n True) * 2 ^ length (drop n bs)"
    by simp
  ultimately have "bits_val (replicate n True) \<le> bits_val bs" by linarith
  with bits_val_replicate_True [of n] show ?thesis by linarith
qed


lemma selectors_of_string:
  "map (\<lambda>v. v \<noteq> 0) (map int_of_char s) = map (\<lambda>c. c = CHR ''1'') s"
  "map (\<lambda>v. \<not> (v \<noteq> 0)) (map int_of_char s) = map Not (map (\<lambda>c. c = CHR ''1'') s)"
  by (simp_all add: int_of_char_def)

lemma combo_partition_patterns:
  "combo_partition S =
     map (\<lambda>n. (compress S (map (\<lambda>c. c = CHR ''1'') (format_0b (ceil_sqrt (length S)) n)),
                compress S (map Not (map (\<lambda>c. c = CHR ''1'') (format_0b (ceil_sqrt (length S)) n)))))
         [0 ..< 2 ^ length S - 1]"
  unfolding combo_partition_def Let_def selectors_of_string ..

lemma bits_format_b: "bits_val (map (\<lambda>c. c = CHR ''1'') (format_b n)) = n"
proof (induction n rule: format_b.induct)
  case (1 n)
  show ?case
  proof (cases "n < 2")
    case True
    then show ?thesis by (subst format_b.simps) (auto simp: digit_char_def)
  next
    case False
    with "1.IH" have ih: "bits_val (map (\<lambda>c. c = CHR ''1'') (format_b (n div 2))) = n div 2"
      by simp
    from False have "map (\<lambda>c. c = CHR ''1'') (format_b n)
        = map (\<lambda>c. c = CHR ''1'') (format_b (n div 2)) @ [n mod 2 \<noteq> 0]"
      by (subst format_b.simps) (simp add: digit_char_def)
    then have "bits_val (map (\<lambda>c. c = CHR ''1'') (format_b n))
        = 2 * (n div 2) + (if n mod 2 \<noteq> 0 then 1 else 0)"
      by (simp add: bits_val_snoc ih)
    also have "\<dots> = n" by presburger
    finally show ?thesis .
  qed
qed

lemma bits_format_0b: "bits_val (map (\<lambda>c. c = CHR ''1'') (format_0b w n)) = n"
proof -
  have "map (\<lambda>c. c = CHR ''1'') (format_0b w n)
          = replicate (w - length (format_b n)) False @ map (\<lambda>c. c = CHR ''1'') (format_b n)"
    by (simp add: format_0b_def)
  then show ?thesis by (simp add: bits_val_append bits_format_b)
qed

lemma bits_val_leading_one: "bs \<noteq> [] \<Longrightarrow> hd bs \<Longrightarrow> 2 ^ (length bs - 1) \<le> bits_val bs"
  by (cases bs) auto

lemma format_b_bits_val:
  "bs \<noteq> [] \<Longrightarrow> hd bs \<Longrightarrow> map (\<lambda>c. c = CHR ''1'') (format_b (bits_val bs)) = bs"
proof (induction bs rule: rev_induct)
  case Nil
  then show ?case by simp
next
  case (snoc b bs)
  show ?case
  proof (cases "bs = []")
    case True
    with snoc.prems have "b" by simp
    with True show ?thesis by (subst format_b.simps) (simp add: digit_char_def)
  next
    case False
    with snoc.prems have hd: "hd bs" by simp
    from bits_val_leading_one [OF False hd] have "1 \<le> bits_val bs"
      by (metis One_nat_def le_trans one_le_numeral one_le_power)
    then have ge: "\<not> bits_val (bs @ [b]) < 2" by (simp add: bits_val_snoc)
    have d: "bits_val (bs @ [b]) div 2 = bits_val bs" by (simp add: bits_val_snoc)
    have m: "bits_val (bs @ [b]) mod 2 = (if b then 1 else 0)" by (simp add: bits_val_snoc)
    from snoc.IH [OF False hd] ge d m show ?thesis
      by (subst format_b.simps) (simp add: digit_char_def)
  qed
qed

lemma length_format_b_bits_val:
  "bs \<noteq> [] \<Longrightarrow> hd bs \<Longrightarrow> length (format_b (bits_val bs)) = length bs"
  using format_b_bits_val [of bs] by (metis length_map)

lemma ceil_sqrt_from_le: "w \<le> n \<Longrightarrow> ceil_sqrt_from w n \<le> n"
proof (induction w n rule: ceil_sqrt_from.induct)
  case (1 w n)
  show ?case
  proof (cases "n \<le> w * w")
    case True
    with "1.prems" show ?thesis by (subst ceil_sqrt_from.simps) simp
  next
    case False
    moreover have "w \<le> w * w" by (rule le_square)
    ultimately have "Suc w \<le> n" by linarith
    with "1.IH" False show ?thesis by (subst ceil_sqrt_from.simps) simp
  qed
qed

lemma ceil_sqrt_le: "ceil_sqrt n \<le> n"
  by (simp add: ceil_sqrt_def ceil_sqrt_from_le)

lemma format_0b_bits_val:
  assumes "bs \<noteq> []" "hd bs"
  shows "map (\<lambda>c. c = CHR ''1'') (format_0b (ceil_sqrt (length bs)) (bits_val bs)) = bs"
  using assms ceil_sqrt_le [of "length bs"] length_format_b_bits_val [OF assms]
  by (simp add: format_0b_def format_b_bits_val)

lemma combo_partition_not_all:
  assumes "(A, B) \<in> set (combo_partition S)"
  shows "A \<noteq> S"
proof
  assume eq: "A = S"
  from assms obtain n where n: "n < 2 ^ length S - 1"
    and A: "A = compress S (map (\<lambda>c. c = CHR ''1'') (format_0b (ceil_sqrt (length S)) n))"
    unfolding combo_partition_patterns by auto
  let ?bs = "map (\<lambda>c. c = CHR ''1'') (format_0b (ceil_sqrt (length S)) n)"
  from A eq have "compress S ?bs = S" by simp
  from compress_self [OF this] have "2 ^ length S \<le> Suc (bits_val ?bs)"
    by (intro bits_val_prefix_ones) simp_all
  then have "2 ^ length S \<le> Suc n" by (simp only: bits_format_0b)
  with n show False by simp
qed

lemma length_combo_partition: "length (combo_partition S) = 2 ^ length S - 1"
  by (simp add: combo_partition_patterns)

lemma combo_partition_leading_one:
  assumes len: "length bs = length S" and ne: "bs \<noteq> []" and hd: "hd bs"
    and nall: "bs \<noteq> replicate (length S) True"
  shows "(compress S bs, compress S (map Not bs)) \<in> set (combo_partition S)"
proof -
  have "Suc (bits_val bs) \<noteq> 2 ^ length bs"
    using bits_val_max [of bs] nall len by auto
  with bits_val_bound [of bs] have "bits_val bs < 2 ^ length S - 1" using len by simp
  then have mem: "bits_val bs \<in> set [0 ..< 2 ^ length S - 1]" by simp
  have pat: "map (\<lambda>c. c = CHR ''1'') (format_0b (ceil_sqrt (length S)) (bits_val bs)) = bs"
    using format_0b_bits_val [OF ne hd] len by simp
  show ?thesis
    unfolding combo_partition_patterns set_map
    by (rule image_eqI [OF _ mem]) (simp only: pat)
qed

text \<open>
  Claim C1, evaluated at \<^verbatim>\<open>['a', 'b', 'c']\<close>. The pad width is
  \<^verbatim>\<open>ceil(sqrt(3)) = 2\<close>, so the patterns of 0 to 3 have two bits and the third element
  lands in neither list of the first four pairs: the pairs yielded do not all partition
  the sequence.
\<close>

theorem combo_partition_abc:
  "combo_partition [''a'', ''b'', ''c''] =
     [([], [''a'', ''b'']), ([''b''], [''a'']), ([''a''], [''b'']), ([''a'', ''b''], []),
      ([''a''], [''b'', ''c'']), ([''a'', ''c''], [''b'']), ([''a'', ''b''], [''c''])]"
  by code_simp

text \<open>
  Claim C2, as the code has it. For a sequence of length \<open>n\<close> the enumerator yields
  \<open>2 ^ n - 1\<close> pairs, one for each integer below \<open>2 ^ n - 1\<close>. The assignment that
  puts every element into the first list is excluded by the enumerator itself: the
  pair \<open>(S, [])\<close> is never yielded. Every other assignment that puts the first element
  of \<open>S\<close> into the first list is yielded.
\<close>

theorem combo_partition_coverage:
  "length (combo_partition S) = 2 ^ length S - 1
   \<and> (S, []) \<notin> set (combo_partition S)
   \<and> (\<forall>bs. length bs = length S \<and> bs \<noteq> [] \<and> hd bs \<and> bs \<noteq> replicate (length S) True \<longrightarrow>
         (compress S bs, compress S (map Not bs)) \<in> set (combo_partition S))"
  using combo_partition_not_all [of S "[]" S] combo_partition_leading_one [of _ S]
    length_combo_partition [of S]
  by blast

text \<open>The theorem at \<^verbatim>\<open>'abc'\<close>, with the assignment \<open>[True, False, True]\<close>.\<close>

theorem combo_partition_coverage_witness:
  "length (combo_partition ''abc'') = 7
   \<and> (''abc'', []) \<notin> set (combo_partition ''abc'')
   \<and> (''ac'', ''b'') \<in> set (combo_partition ''abc'')"
  using combo_partition_coverage [of "''abc''"]
  by (auto dest!: spec [of _ "[True, False, True]"])

text \<open>
  Not all \<open>2 ^ n\<close> assignments are covered: for the one-element sequence \<^verbatim>\<open>'a'\<close> the
  assignment \<open>[True]\<close>, which gives \<^verbatim>\<open>('a', '')\<close>, is not yielded.
\<close>

theorem combo_partition_omits_all_ones:
  "length [True] = length ''a''
   \<and> (compress ''a'' [True], compress ''a'' (map Not [True])) \<notin> set (combo_partition ''a'')"
proof -
  have "combo_partition ''a'' = [([], ''a'')]"
    by code_simp
  then show ?thesis
    by simp
qed

section \<open>Properties of keys\<close>

subsection \<open>Splitting and joining\<close>

lemma split_from_shape:
  "split_from sep cur s =
     (cur @ takeWhile (\<lambda>c. c \<noteq> sep) s) #
       (if sep \<in> set s then split_from sep [] (tl (dropWhile (\<lambda>c. c \<noteq> sep) s)) else [])"
  by (induction s arbitrary: cur) auto

lemma length_split_from: "length (split_from sep cur s) = Suc (count_list s sep)"
  by (induction s arbitrary: cur) auto

lemma join_split_from: "str_join [sep] (split_from sep cur s) = cur @ s"
proof (induction s arbitrary: cur)
  case Nil
  show ?case by simp
next
  case (Cons c cs)
  show ?case
  proof (cases "c = sep")
    case True
    obtain w ws where w: "split_from sep [] cs = w # ws"
      by (cases "split_from sep [] cs") (use length_split_from [of sep "[]" cs] in auto)
    from Cons.IH [of "[]"] w True show ?thesis by simp
  next
    case False
    with Cons.IH [of "cur @ [c]"] show ?thesis by simp
  qed
qed

lemma join_split: "str_join [sep] (str_split sep s) = s"
  by (simp add: str_split_def join_split_from)

lemma count_tl_dropWhile:
  "sep \<in> set s \<Longrightarrow> count_list s sep = Suc (count_list (tl (dropWhile (\<lambda>c. c \<noteq> sep) s)) sep)"
  by (induction s) auto

lemma split_no_sep: "sep \<notin> set s \<Longrightarrow> split_from sep cur s = [cur @ s]"
  by (induction s arbitrary: cur) auto

lemma count_zero_iff: "count_list s x = 0 \<longleftrightarrow> x \<notin> set s"
  by (induction s) auto

lemma split_two:
  assumes "count_list s sep = 1"
  shows "str_split sep s = [takeWhile (\<lambda>c. c \<noteq> sep) s, tl (dropWhile (\<lambda>c. c \<noteq> sep) s)]"
proof -
  from assms have mem: "sep \<in> set s" using count_zero_iff [of s sep] by auto
  with assms count_tl_dropWhile [of sep s]
  have "count_list (tl (dropWhile (\<lambda>c. c \<noteq> sep) s)) sep = 0" by simp
  then have "sep \<notin> set (tl (dropWhile (\<lambda>c. c \<noteq> sep) s))" by (simp add: count_zero_iff)
  then have "split_from sep [] (tl (dropWhile (\<lambda>c. c \<noteq> sep) s)) = [tl (dropWhile (\<lambda>c. c \<noteq> sep) s)]"
    using split_no_sep [of sep _ "[]"] by simp
  with mem show ?thesis
    unfolding str_split_def by (subst split_from_shape) simp
qed

subsection \<open>Parsing\<close>

lemma from_str_other:
  assumes "length (str_split CHR '':'' s) \<noteq> 2"
  shows "from_str_or_key (Str s) = Inl ValueError"
  using assms by (auto simp: from_str_or_key_def split: list.splits)

lemma from_str_one_colon:
  "count_list s CHR '':'' = 1 \<Longrightarrow>
   from_str_or_key (Str s) =
     Inr \<lparr>name = takeWhile (\<lambda>c. c \<noteq> CHR '':'') s,
          dims = str_split CHR ''-'' (tl (dropWhile (\<lambda>c. c \<noteq> CHR '':'') s))\<rparr>"
  by (simp add: from_str_or_key_def split_two)

lemma from_str_not_one_colon:
  "count_list s CHR '':'' \<noteq> 1 \<Longrightarrow> from_str_or_key (Str s) = Inl ValueError"
  by (rule from_str_other) (simp add: str_split_def length_split_from)

text \<open>
  Claim C5, as the code has it. Applied to a string, \<open>from_str_or_key\<close> succeeds exactly
  when the string holds one \<^verbatim>\<open>:\<close>; the name is then the text before it and the dims
  are the text after it, cut at every \<^verbatim>\<open>-\<close>. A string with no \<^verbatim>\<open>:\<close> and a string with
  two or more both raise ValueError.
\<close>

theorem from_str_or_key_string:
  "from_str_or_key (Str s) =
     (if count_list s CHR '':'' = 1
      then Inr \<lparr>name = takeWhile (\<lambda>c. c \<noteq> CHR '':'') s,
                dims = str_split CHR ''-'' (tl (dropWhile (\<lambda>c. c \<noteq> CHR '':'') s))\<rparr>
      else Inl ValueError)"
  using from_str_one_colon [of s] from_str_not_one_colon [of s] by simp

text \<open>The theorem at a string with one separator and at a string with none.\<close>

theorem from_str_or_key_string_witness:
  "from_str_or_key (Str ''foo:a-b-c'') = Inr \<lparr>name = ''foo'', dims = [''a'', ''b'', ''c'']\<rparr>
   \<and> from_str_or_key (Str ''foo'') = Inl ValueError"
  using from_str_or_key_string [of "''foo:a-b-c''"] from_str_or_key_string [of "''foo''"]
  by (simp add: str_split_def)

text \<open>
  A string with two separators is not split at the first one: it raises ValueError
  although it contains \<^verbatim>\<open>:\<close>.
\<close>

theorem from_str_or_key_two_colons:
  "\<not> (from_str_or_key (Str ''a:b:c'') = Inl ValueError \<longleftrightarrow> CHR '':'' \<notin> set ''a:b:c'')"
  by (simp add: from_str_or_key_def str_split_def)

subsection \<open>Round trip through the canonical string\<close>

lemma repr_eq: "repr k = name k @ '':'' @ str_join ''-'' (dims k)"
  by (simp add: repr_def)

lemma count_join:
  "count_list (str_join sep ds) c = sum_list (map (\<lambda>d. count_list d c) ds)
     + (length ds - 1) * count_list sep c"
  by (induction sep ds rule: str_join.induct) auto

lemma count_repr:
  "count_list (repr k) CHR '':'' =
     Suc (count_list (name k) CHR '':'' + sum_list (map (\<lambda>d. count_list d CHR '':'') (dims k)))"
  by (simp add: repr_eq count_join)

lemma sum_count_zero:
  "sum_list (map (\<lambda>d. count_list d c) ds) = 0 \<longleftrightarrow> (\<forall>d\<in>set ds. c \<notin> set d)"
  by (induction ds) (auto simp: count_zero_iff)

lemma colon_free_count:
  "count_list (repr k) CHR '':'' = 1 \<longleftrightarrow>
     CHR '':'' \<notin> set (name k) \<and> (\<forall>d\<in>set (dims k). CHR '':'' \<notin> set d)"
  by (simp add: count_repr sum_count_zero count_zero_iff)

lemma parse_repr_colon_free:
  assumes "count_list (repr k) CHR '':'' = 1"
  shows "from_str_or_key (Str (repr k)) =
           Inr \<lparr>name = name k, dims = str_split CHR ''-'' (str_join ''-'' (dims k))\<rparr>"
proof -
  from assms have nm: "CHR '':'' \<notin> set (name k)" using colon_free_count [of k] by simp
  then have "takeWhile (\<lambda>c. c \<noteq> CHR '':'') (repr k) = name k"
    by (auto simp: repr_eq takeWhile_tail)
  moreover from nm have "dropWhile (\<lambda>c. c \<noteq> CHR '':'') (repr k) = '':'' @ str_join ''-'' (dims k)"
    by (auto simp: repr_eq dropWhile_append3)
  ultimately show ?thesis using from_str_one_colon [OF assms] by simp
qed

text \<open>
  Claim C4, as the code has it. When neither the name nor any dim of a Key contains
  \<^verbatim>\<open>:\<close>, parsing its canonical string succeeds and the parsed Key compares equal to
  the original; when the name or a dim contains \<^verbatim>\<open>:\<close>, parsing the canonical string
  raises ValueError.
\<close>

theorem parse_repr_roundtrip:
  "(CHR '':'' \<notin> set (name k) \<and> (\<forall>d\<in>set (dims k). CHR '':'' \<notin> set d) \<longrightarrow>
      (\<exists>k'. from_str_or_key (Str (repr k)) = Inr k' \<and> Key_eq k' (KeyObj k)))
   \<and> (\<not> (CHR '':'' \<notin> set (name k) \<and> (\<forall>d\<in>set (dims k). CHR '':'' \<notin> set d)) \<longrightarrow>
      from_str_or_key (Str (repr k)) = Inl ValueError)"
proof (cases "count_list (repr k) CHR '':'' = 1")
  case True
  have "Key_eq \<lparr>name = name k, dims = str_split CHR ''-'' (str_join ''-'' (dims k))\<rparr> (KeyObj k)"
    by (simp add: Key_eq_def repr_eq join_split)
  with parse_repr_colon_free [OF True] True show ?thesis
    using colon_free_count [of k] by simp
next
  case False
  with from_str_not_one_colon [OF False] show ?thesis
    using colon_free_count [of k] by simp
qed

text \<open>The theorem at a Key free of separators and at a Key whose name holds one.\<close>

theorem parse_repr_roundtrip_witness:
  "(\<exists>k'. from_str_or_key (Str (repr \<lparr>name = ''foo'', dims = [''a'', ''b'']\<rparr>)) = Inr k'
         \<and> Key_eq k' (KeyObj \<lparr>name = ''foo'', dims = [''a'', ''b'']\<rparr>))
   \<and> from_str_or_key (Str (repr \<lparr>name = ''a:b'', dims = [''c'']\<rparr>)) = Inl ValueError"
  using parse_repr_roundtrip [of "\<lparr>name = ''foo'', dims = [''a'', ''b'']\<rparr>"]
        parse_repr_roundtrip [of "\<lparr>name = ''a:b'', dims = [''c'']\<rparr>"]
  by simp

text \<open>
  The round trip fails for \<^verbatim>\<open>Key('a:b', ['c'])\<close>: its canonical string \<^verbatim>\<open>a:b:c\<close> does
  not parse.
\<close>

theorem parse_repr_colon_in_name:
  "from_str_or_key (Str (repr \<lparr>name = ''a:b'', dims = [''c'']\<rparr>)) = Inl ValueError"
  by (simp add: from_str_or_key_def str_split_def repr_def)

subsection \<open>Equality and hash\<close>

text \<open>
  Claim C6. A Key compares equal to a string exactly when the string is the canonical
  form \<^verbatim>\<open>name:d1-d2-...\<close>; its hash is the string hash of the canonical form; so the
  hash agrees with equality, against a string and against another Key.
\<close>

theorem key_eq_hash_canonical:
  "Key_eq k (Str s) = (s = name k @ '':'' @ str_join ''-'' (dims k))
   \<and> Key_hash H k = H (name k @ '':'' @ str_join ''-'' (dims k))
   \<and> (Key_eq k (Str s) \<longrightarrow> Key_hash H k = H s)
   \<and> (Key_eq k (KeyObj k') \<longrightarrow> Key_hash H k = Key_hash H k')"
  by (auto simp: Key_eq_def Key_hash_def repr_eq)

text \<open>
  The theorem at \<^verbatim>\<open>Key('foo', ['a', 'b'])\<close>, against an equal and an unequal string,
  with the length of a string as its hash.
\<close>

theorem key_eq_hash_canonical_witness:
  "Key_eq \<lparr>name = ''foo'', dims = [''a'', ''b'']\<rparr> (Str ''foo:a-b'')
   \<and> \<not> Key_eq \<lparr>name = ''foo'', dims = [''a'', ''b'']\<rparr> (Str ''foo:b-a'')
   \<and> Key_hash (\<lambda>s. int (length s)) \<lparr>name = ''foo'', dims = [''a'', ''b'']\<rparr> = 7
   \<and> Key_eq \<lparr>name = ''foo'', dims = [''a'', ''b'']\<rparr> (KeyObj \<lparr>name = ''foo'', dims = [''a'', ''b'']\<rparr>)"
  using key_eq_hash_canonical [of "\<lparr>name = ''foo'', dims = [''a'', ''b'']\<rparr>" "''foo:a-b''"
          "\<lambda>s. int (length s)" "\<lparr>name = ''foo'', dims = [''a'', ''b'']\<rparr>"]
        key_eq_hash_canonical [of "\<lparr>name = ''foo'', dims = [''a'', ''b'']\<rparr>" "''foo:b-a''"
          "\<lambda>s. int (length s)" "\<lparr>name = ''foo'', dims = [''a'', ''b'']\<rparr>"]
  by (simp add: Key_eq_def repr_def)

text \<open>
  Claim C10. Two Keys whose canonical strings coincide compare equal, in both
  directions, and have the same hash, whatever their attributes are.
\<close>

theorem key_collision:
  "repr k1 = repr k2 \<Longrightarrow>
     Key_eq k1 (KeyObj k2) \<and> Key_eq k2 (KeyObj k1) \<and> Key_hash H k1 = Key_hash H k2"
  by (simp add: Key_eq_def Key_hash_def)

text \<open>
  The theorem at \<^verbatim>\<open>Key('a', ['b-c'])\<close> and \<^verbatim>\<open>Key('a', ['b', 'c'])\<close>: different
  attributes, both rendered as \<^verbatim>\<open>a:b-c\<close>, with the length of a string as its hash.
\<close>

theorem key_collision_witness:
  "\<lparr>name = ''a'', dims = [''b-c'']\<rparr> \<noteq> \<lparr>name = ''a'', dims = [''b'', ''c'']\<rparr>
   \<and> repr \<lparr>name = ''a'', dims = [''b-c'']\<rparr> = ''a:b-c''
   \<and> repr \<lparr>name = ''a'', dims = [''b'', ''c'']\<rparr> = ''a:b-c''
   \<and> Key_eq \<lparr>name = ''a'', dims = [''b-c'']\<rparr> (KeyObj \<lparr>name = ''a'', dims = [''b'', ''c'']\<rparr>)
   \<and> Key_eq \<lparr>name = ''a'', dims = [''b'', ''c'']\<rparr> (KeyObj \<lparr>name = ''a'', dims = [''b-c'']\<rparr>)
   \<and> Key_hash (\<lambda>s. int (length s)) \<lparr>name = ''a'', dims = [''b-c'']\<rparr>
       = Key_hash (\<lambda>s. int (length s)) \<lparr>name = ''a'', dims = [''b'', ''c'']\<rparr>"
proof -
  have r: "repr \<lparr>name = ''a'', dims = [''b-c'']\<rparr> = repr \<lparr>name = ''a'', dims = [''b'', ''c'']\<rparr>"
    by (simp add: repr_def)
  show ?thesis
    using key_collision [OF r, of "\<lambda>s. int (length s)"] by (simp add: repr_def)
qed

subsection \<open>Aggregates\<close>

lemma aggregates_foo_abc_eval:
  "aggregates \<lparr>name = ''foo'', dims = [''a'', ''b'', ''c'']\<rparr> =
     map (\<lambda>(kept, others). (\<lparr>name = ''foo'', dims = kept\<rparr>,
             (Partial_aggregate others, \<lparr>name = ''foo'', dims = [''a'', ''b'', ''c'']\<rparr>)))
       [([], [''a'', ''b'']), ([''b''], [''a'']), ([''a''], [''b'']), ([''a'', ''b''], []),
        ([''a''], [''b'', ''c'']), ([''a'', ''c''], [''b'']), ([''a'', ''b''], [''c''])]"
proof -
  have "combo_partition [''a'', ''b'', ''c''] =
     [([], [''a'', ''b'']), ([''b''], [''a'']), ([''a''], [''b'']), ([''a'', ''b''], []),
      ([''a''], [''b'', ''c'']), ([''a'', ''c''], [''b'']), ([''a'', ''b''], [''c''])]"
    by code_simp
  then show ?thesis by (simp add: aggregates_def)
qed

text \<open>
  Claim C3, as the code has it. For \<^verbatim>\<open>Key('foo', ['a', 'b', 'c'])\<close>, every pair that
  \<open>aggregates\<close> yields has a Key named \<^verbatim>\<open>foo\<close> whose dims are an order-preserving
  sub-list of \<^verbatim>\<open>['a', 'b', 'c']\<close> other than the whole list (the empty list occurs),
  and a task that refers to the original Key and to dims that are an order-preserving
  sub-list of \<^verbatim>\<open>['a', 'b', 'c']\<close> disjoint from the kept dims.
\<close>

theorem aggregates_foo_abc:
  "\<forall>(k', task, orig) \<in> set (aggregates \<lparr>name = ''foo'', dims = [''a'', ''b'', ''c'']\<rparr>).
      name k' = ''foo''
    \<and> subseq (dims k') [''a'', ''b'', ''c''] \<and> dims k' \<noteq> [''a'', ''b'', ''c'']
    \<and> orig = \<lparr>name = ''foo'', dims = [''a'', ''b'', ''c'']\<rparr>
    \<and> subseq (dimensions task) [''a'', ''b'', ''c'']
    \<and> set (dims k') \<inter> set (dimensions task) = {}"
  unfolding aggregates_foo_abc_eval by simp

text \<open>The theorem at the pair yielded for the pattern \<^verbatim>\<open>101\<close>.\<close>

theorem aggregates_foo_abc_witness:
  "(\<lparr>name = ''foo'', dims = [''a'', ''c'']\<rparr>,
      Partial_aggregate [''b''], \<lparr>name = ''foo'', dims = [''a'', ''b'', ''c'']\<rparr>)
     \<in> set (aggregates \<lparr>name = ''foo'', dims = [''a'', ''b'', ''c'']\<rparr>)
   \<and> subseq [''a'', ''c''] [''a'', ''b'', ''c'']
   \<and> subseq [''b''] [''a'', ''b'', ''c'']
   \<and> set [''a'', ''c''] \<inter> set [''b''] = {}"
proof -
  have mem: "(\<lparr>name = ''foo'', dims = [''a'', ''c'']\<rparr>,
      Partial_aggregate [''b''], \<lparr>name = ''foo'', dims = [''a'', ''b'', ''c'']\<rparr>)
     \<in> set (aggregates \<lparr>name = ''foo'', dims = [''a'', ''b'', ''c'']\<rparr>)"
    unfolding aggregates_foo_abc_eval by simp
  from aggregates_foo_abc [rule_format, OF mem] mem show ?thesis by simp
qed

text \<open>
  The first pair yielded has no kept dims, and its task refers to \<^verbatim>\<open>['a', 'b']\<close>,
  which is not the complement of the kept dims.
\<close>

theorem aggregates_foo_abc_empty_kept:
  "(\<lparr>name = ''foo'', dims = []\<rparr>,
      Partial_aggregate [''a'', ''b''], \<lparr>name = ''foo'', dims = [''a'', ''b'', ''c'']\<rparr>)
     \<in> set (aggregates \<lparr>name = ''foo'', dims = [''a'', ''b'', ''c'']\<rparr>)"
  unfolding aggregates_foo_abc_eval by simp

section \<open>Properties of the quantity loader\<close>

lemmas loader_defs =
  quantity_as_xr_def from_records_def strip_unit_def pop_def to_arrays_def
  value_columns_table_def list_remove_def set_index_def from_dataframe_def nrows_def
  index_tuples_def squeeze_index_def squeeze_def drop_at_def named_array_def Let_def

subsection \<open>Steps of the loader\<close>

lemma value_columns_cases:
  "map_of value_columns_table kind = Some vc \<Longrightarrow>
     kind \<in> {''par'', ''equ'', ''var''} \<and> vc = (if kind = ''par'' then [''value''] else [''lvl'', ''mrg''])"
  by (auto simp: value_columns_table_def split: if_splits)

lemma collect_keys: "collect f xs = Inr ys \<Longrightarrow> map fst ys = xs"
  by (induction xs arbitrary: ys) (auto split: sum.splits)

lemma collect_values: "collect f xs = Inr ys \<Longrightarrow> (c, arr) \<in> set ys \<Longrightarrow> f c = Inr arr"
  by (induction xs arbitrary: ys) (auto split: sum.splits)

lemma to_arrays_keys:
  "to_arrays data attrs nm kind = Inr res \<Longrightarrow>
     kind \<in> {''par'', ''equ'', ''var''}
     \<and> map fst res = (if kind = ''par'' then [''value''] else [''lvl'', ''mrg''])"
  unfolding to_arrays_def Let_def
  by (auto split: option.splits sum.splits dest!: value_columns_cases collect_keys)

lemma quantity_as_xr_to_arrays:
  "quantity_as_xr sc nm kind = Inr res \<Longrightarrow> \<exists>data attrs. to_arrays data attrs nm kind = Inr res"
  unfolding quantity_as_xr_def Let_def
  by (auto split: option.splits sum.splits prod.splits)

lemma set_unique: "set (unique xs) = set xs"
  by (induction xs rule: unique.induct) auto

lemma distinct_unique: "distinct (unique xs)"
  by (induction xs rule: unique.induct) (auto simp: set_unique)

lemma length_unique: "length (unique xs) = card (set xs)"
  using distinct_card [OF distinct_unique, of xs] by (simp add: set_unique)

lemma unique_single: "set xs = {u} \<Longrightarrow> unique xs = [u]"
proof -
  assume s: "set xs = {u}"
  then have "length (unique xs) = 1" by (simp add: length_unique)
  then obtain y where y: "unique xs = [y]" by (cases "unique xs") auto
  with set_unique [of xs] s show ?thesis by auto
qed

lemma strip_unit_many:
  "map_of data ''unit'' = Some us \<Longrightarrow> 2 \<le> card (set us) \<Longrightarrow> strip_unit data = Inl AssertionError"
  using length_unique [of us]
  by (auto simp: strip_unit_def pop_def split: list.splits)

lemma strip_unit_one:
  "map_of data ''unit'' = Some us \<Longrightarrow> set us = {u} \<Longrightarrow>
     strip_unit data = Inr (filter (\<lambda>(c, cs). c \<noteq> ''unit'') data, [(''unit'', u)])"
  by (simp add: strip_unit_def pop_def unique_single)


lemma remove_each_subset: "remove_each cols ds = Inr ds' \<Longrightarrow> set ds' \<subseteq> set ds"
proof (induction cols arbitrary: ds)
  case Nil
  then show ?case by simp
next
  case (Cons col cols)
  from Cons.prems obtain ds1 where r: "list_remove col ds = Inr ds1" and t: "remove_each cols ds1 = Inr ds'"
    by (auto split: sum.splits)
  from r have "set ds1 \<subseteq> set ds"
    using set_remove1_subset [of col ds] by (auto simp: list_remove_def split: if_splits)
  with Cons.IH [OF t] show ?case by blast
qed

lemma level_names: "fst ` set (map (\<lambda>(d, labels). (d, f labels)) levels) = fst ` set levels"
  by (induction levels) auto

lemma from_dataframe_dims:
  "from_dataframe df = Inr ds \<Longrightarrow>
     fst ` set (ds_dims ds) \<subseteq> insert ''index'' (fst ` set (index df))"
proof -
  assume a: "from_dataframe df = Inr ds"
  show ?thesis
  proof (cases "index df")
    case Nil
    with a show ?thesis by (auto simp: from_dataframe_def Let_def)
  next
    case (Cons l ls)
    obtain d labels where l: "l = (d, labels)" by (cases l)
    show ?thesis
    proof (cases ls)
      case Nil
      with a Cons l show ?thesis by (auto simp: from_dataframe_def Let_def)
    next
      case (Cons l' ls')
      with a \<open>index df = l # ls\<close> l
      have "ds_dims ds = map (\<lambda>(d, labels). (d, length (unique labels))) (index df)"
        by (auto simp: from_dataframe_def Let_def split: if_splits)
      then show ?thesis
        using level_names [of "\<lambda>labels. length (unique labels)" "index df"] by auto
    qed
  qed
qed

lemma set_drop_at: "set (drop_at p xs) \<subseteq> set xs"
  unfolding drop_at_def using set_take_subset [of p xs] set_drop_subset [of "Suc p" xs] by auto

lemma squeeze_dims: "squeeze dim ds = Inr ds' \<Longrightarrow> set (ds_dims ds') \<subseteq> set (ds_dims ds)"
proof -
  assume a: "squeeze dim ds = Inr ds'"
  then obtain p where "ds_dims ds' = drop_at p (ds_dims ds)"
    unfolding squeeze_def Let_def by (auto split: option.splits if_splits)
  then show ?thesis by (simp add: set_drop_at)
qed

lemma squeeze_index_dims:
  "squeeze_index ds = Inr ds' \<Longrightarrow> set (ds_dims ds') \<subseteq> set (ds_dims ds)"
  unfolding squeeze_index_def using squeeze_dims [of "''index''" ds]
  by (auto split: sum.splits if_splits)

lemma named_array_fields:
  "named_array ds attrs nm col = Inr arr \<Longrightarrow>
     da_attrs arr = attrs \<and> da_name arr = Some nm \<and> da_dims arr = ds_dims ds"
  by (auto simp: named_array_def split: option.splits)

lemma set_index_names: "fst ` set (index (set_index dnames data)) = set dnames"
  by (auto simp: set_index_def image_iff)

lemma to_arrays_fields:
  assumes "to_arrays data attrs nm kind = Inr res" and "(c, arr) \<in> set res"
  shows "da_attrs arr = attrs \<and> da_name arr = Some nm
         \<and> fst ` set (da_dims arr) \<subseteq> insert ''index'' (fst ` set data)"
proof -
  from assms(1) obtain vc dnames' ds ds' where
        rm: "remove_each vc (map fst data) = Inr dnames'"
    and fd: "from_dataframe (if length dnames' \<noteq> 0 then set_index dnames' data
                             else \<lparr>columns = data, index = []\<rparr>) = Inr ds"
    and sq: "squeeze_index ds = Inr ds'"
    and co: "collect (named_array ds' attrs nm) vc = Inr res"
    unfolding to_arrays_def Let_def by (auto split: option.splits sum.splits)
  from collect_values [OF co assms(2)] have na: "named_array ds' attrs nm c = Inr arr" .
  from remove_each_subset [OF rm] have sub: "set dnames' \<subseteq> fst ` set data" by simp
  have "fst ` set (ds_dims ds) \<subseteq> insert ''index'' (set dnames')"
  proof (cases "length dnames' \<noteq> 0")
    case True
    with fd from_dataframe_dims [of "set_index dnames' data" ds] show ?thesis
      by (simp add: set_index_names)
  next
    case False
    with fd from_dataframe_dims [of "\<lparr>columns = data, index = []\<rparr>" ds] show ?thesis
      by simp
  qed
  with sub squeeze_index_dims [OF sq] have "fst ` set (ds_dims ds') \<subseteq> insert ''index'' (fst ` set data)"
    by blast
  with named_array_fields [OF na] show ?thesis by simp
qed

lemma value_columns_foreign:
  "kind \<notin> {''par'', ''equ'', ''var''} \<Longrightarrow> map_of value_columns_table kind = None"
  by (simp add: value_columns_table_def)

lemma value_columns_tag:
  "kind \<in> {''par'', ''equ'', ''var''} \<Longrightarrow>
     map_of value_columns_table kind = Some (if kind = ''par'' then [''value''] else [''lvl'', ''mrg''])"
  by (auto simp: value_columns_table_def)

lemma to_arrays_foreign:
  "kind \<notin> {''par'', ''equ'', ''var''} \<Longrightarrow> to_arrays data attrs nm kind = Inl KeyError"
  by (simp add: to_arrays_def value_columns_foreign)

lemma strip_unit_ok:
  assumes "\<forall>us. map_of t ''unit'' = Some us \<longrightarrow> (\<exists>u. set us = {u})"
  shows "\<exists>attrs. strip_unit t = Inr (filter (\<lambda>(c, cs). c \<noteq> ''unit'') t, attrs)"
proof (cases "map_of t ''unit''")
  case None
  then have "''unit'' \<notin> fst ` set t" by (simp add: map_of_eq_None_iff)
  then have "filter (\<lambda>(c, cs). c \<noteq> ''unit'') t = t"
    by (force simp: filter_id_conv)
  with None show ?thesis by (simp add: strip_unit_def pop_def)
next
  case (Some us)
  with assms obtain u where "set us = {u}" by blast
  from strip_unit_one [OF Some this] show ?thesis by blast
qed

lemma quantity_as_xr_after_strip:
  assumes "sc kind = Some m" and "m nm = Inr raw"
    and "strip_unit (case raw of Dict d \<Rightarrow> from_records d | Frame t \<Rightarrow> t) = Inr (data, attrs)"
  shows "quantity_as_xr sc nm kind = to_arrays data attrs nm kind"
  using assms by (simp add: quantity_as_xr_def)

lemma remove_each_filter:
  "distinct ns \<Longrightarrow> distinct cols \<Longrightarrow> set cols \<subseteq> set ns \<Longrightarrow>
     remove_each cols ns = Inr (filter (\<lambda>c. c \<notin> set cols) ns)"
proof (induction cols arbitrary: ns)
  case Nil
  then show ?case by simp
next
  case (Cons col cols)
  have r: "remove1 col ns = filter (\<lambda>c. c \<noteq> col) ns"
    using Cons.prems(1) by (simp add: distinct_remove1_removeAll removeAll_filter_not_eq) metis
  have "remove_each cols (filter (\<lambda>c. c \<noteq> col) ns)
          = Inr (filter (\<lambda>c. c \<notin> set cols) (filter (\<lambda>c. c \<noteq> col) ns))"
    using Cons.prems by (intro Cons.IH) auto
  moreover have "filter (\<lambda>c. c \<notin> set cols) (filter (\<lambda>c. c \<noteq> col) ns)
          = filter (\<lambda>c. c \<notin> set (col # cols)) ns"
    by (simp add: conj_commute)
  ultimately show ?case using Cons.prems(3) r by (simp add: list_remove_def)
qed

lemma collect_ok: "(\<forall>x \<in> set xs. \<exists>y. f x = Inr y) \<Longrightarrow> \<exists>ys. collect f xs = Inr ys"
  by (induction xs) auto

lemma named_array_ok:
  "col \<in> fst ` set (ds_vars ds) \<Longrightarrow> \<exists>arr. named_array ds attrs nm col = Inr arr"
proof -
  assume "col \<in> fst ` set (ds_vars ds)"
  then have "map_of (ds_vars ds) col \<noteq> None" by (simp add: map_of_eq_None_iff)
  then show ?thesis by (auto simp: named_array_def)
qed

lemma var_names: "fst ` set (map (\<lambda>(c, cells). (c, f cells)) cols) = fst ` set cols"
  by (induction cols) auto

lemma from_dataframe_ok:
  assumes "index df = [] \<or> distinct (index_tuples (index df) (nrows (columns df)))"
  shows "\<exists>ds. from_dataframe df = Inr ds
           \<and> fst ` set (ds_vars ds) = fst ` set (columns df)
           \<and> (if index df = [] then ds_dims ds = [(''index'', nrows (columns df))]
               else fst ` set (ds_dims ds) = fst ` set (index df))"
proof (cases "index df")
  case Nil
  then show ?thesis
    by (simp add: from_dataframe_def Let_def var_names del: set_map)
next
  case (Cons l ls)
  obtain d labels where l: "l = (d, labels)" by (cases l)
  show ?thesis
  proof (cases ls)
    case Nil
    with Cons l show ?thesis
      by (simp add: from_dataframe_def Let_def var_names del: set_map)
  next
    case c2: (Cons l' ls')
    from assms Cons have "distinct (index_tuples (index df) (nrows (columns df)))" by simp
    with Cons l c2 have "from_dataframe df =
        Inr \<lparr>ds_dims = map (\<lambda>(d, labels). (d, length (unique labels))) (index df),
             ds_vars = map (\<lambda>(c, cells).
                 (c, zip (map (map Label) (index_tuples (index df) (nrows (columns df)))) cells))
               (columns df)\<rparr>"
      by (simp add: from_dataframe_def Let_def)
    moreover have "fst ` set (map (\<lambda>(d, labels). (d, length (unique labels))) (index df))
        = fst ` set (index df)"
      by (rule level_names)
    moreover have "fst ` set (map (\<lambda>(c, cells).
                 (c, zip (map (map Label) (index_tuples (index df) (nrows (columns df)))) cells))
               (columns df)) = fst ` set (columns df)"
      by (rule var_names)
    ultimately show ?thesis using Cons by simp
  qed
qed

lemma squeeze_index_absent:
  "''index'' \<notin> fst ` set (ds_dims ds) \<Longrightarrow> squeeze_index ds = Inr ds"
proof -
  assume "''index'' \<notin> fst ` set (ds_dims ds)"
  then have "map_of (ds_dims ds) ''index'' = None" by (simp add: map_of_eq_None_iff)
  then show ?thesis by (simp add: squeeze_index_def squeeze_def)
qed

lemma squeeze_index_one:
  "ds_dims ds = [(''index'', 1)] \<Longrightarrow>
     \<exists>ds'. squeeze_index ds = Inr ds' \<and> fst ` set (ds_vars ds') = fst ` set (ds_vars ds)"
  by (simp add: squeeze_index_def squeeze_def Let_def var_names del: set_map)


lemma set_index_index:
  assumes "distinct (map fst data)"
  shows "index (set_index (map fst (filter P data)) data) = filter P data"
proof -
  have "\<And>ys. set ys \<subseteq> set data \<Longrightarrow>
          map (\<lambda>d. (d, case map_of data d of Some cells \<Rightarrow> cells | None \<Rightarrow> [])) (map fst ys) = ys"
  proof -
    fix ys :: "(string \<times> 'a list) list"
    show "set ys \<subseteq> set data \<Longrightarrow>
          map (\<lambda>d. (d, case map_of data d of Some cells \<Rightarrow> cells | None \<Rightarrow> [])) (map fst ys) = ys"
    proof (induction ys)
      case Nil
      show ?case by simp
    next
      case (Cons y ys)
      obtain k v where y: "y = (k, v)" by (cases y)
      with Cons.prems have "(k, v) \<in> set data" by simp
      with assms have "map_of data k = Some v" by (rule map_of_is_SomeI)
      with Cons y show ?case by simp
    qed
  qed
  then show ?thesis by (simp add: set_index_def)
qed

lemma nrows_rect:
  "data \<noteq> [] \<Longrightarrow> \<forall>(c, cs) \<in> set data. length cs = n \<Longrightarrow> nrows data = n"
  by (cases data) (auto simp: nrows_def)

lemma to_arrays_accepts:
  assumes vc: "map_of value_columns_table kind = Some vc"
    and dist: "distinct (map fst data)" and noidx: "''index'' \<notin> fst ` set data"
    and rect: "\<forall>(c, cs) \<in> set data. length cs = n" and pos: "0 < n"
    and has: "set vc \<subseteq> fst ` set data"
    and rows: "distinct (index_tuples (filter (\<lambda>(c, cs). c \<notin> set vc) data) n)"
  shows "\<exists>res. to_arrays data attrs nm kind = Inr res"
proof -
  let ?dimcols = "filter (\<lambda>(c, cs). c \<notin> set vc) data"
  let ?dn = "map fst ?dimcols"
  from value_columns_cases [OF vc] have dvc: "distinct vc" and nvc: "vc \<noteq> []" by auto
  have dn: "?dn = filter (\<lambda>c. c \<notin> set vc) (map fst data)"
    by (simp add: filter_map comp_def case_prod_unfold)
  have rm: "remove_each vc (map fst data) = Inr ?dn"
    using remove_each_filter [OF dist dvc] has dn by simp
  let ?df = "if length ?dn \<noteq> 0 then set_index ?dn data else \<lparr>columns = data, index = []\<rparr>"
  have cols_sub: "set (columns ?df) \<subseteq> set data"
    by (auto simp: set_index_def)
  have cols_vc: "set vc \<subseteq> fst ` set (columns ?df)"
  proof
    fix c assume c: "c \<in> set vc"
    with has obtain cs where m: "(c, cs) \<in> set data" by auto
    from c have "c \<notin> set ?dn" by auto
    with m have "(c, cs) \<in> set (columns ?df)" by (auto simp: set_index_def)
    then show "c \<in> fst ` set (columns ?df)" by force
  qed
  with nvc have "columns ?df \<noteq> []" by (cases vc) auto
  with cols_sub rect have nr: "nrows (columns ?df) = n"
    by (intro nrows_rect) auto
  have ix: "index ?df = ?dimcols"
    using set_index_index [OF dist, of "\<lambda>(c, cs). c \<notin> set vc"] by auto
  have "index ?df = [] \<or> distinct (index_tuples (index ?df) (nrows (columns ?df)))"
    using rows by (simp only: ix nr) simp
  from from_dataframe_ok [OF this] obtain ds where
        fd: "from_dataframe ?df = Inr ds"
    and vars: "fst ` set (ds_vars ds) = fst ` set (columns ?df)"
    and dims: "if index ?df = [] then ds_dims ds = [(''index'', nrows (columns ?df))]
               else fst ` set (ds_dims ds) = fst ` set (index ?df)"
    by blast
  have "\<exists>ds'. squeeze_index ds = Inr ds' \<and> fst ` set (ds_vars ds') = fst ` set (ds_vars ds)"
  proof (cases "?dimcols = []")
    case True
    with rows have "distinct (map (\<lambda>i. []::'a list) [0 ..< n])" by (simp add: index_tuples_def)
    then have "n \<le> 1"
      by (metis distinct_map inj_on_def atLeastLessThan_iff set_upt le_antisym less_one
            linorder_not_le zero_le zero_less_one)
    with pos have "n = 1" by simp
    with dims True ix nr have "ds_dims ds = [(''index'', 1)]" by simp
    then show ?thesis by (rule squeeze_index_one)
  next
    case False
    with dims ix have "fst ` set (ds_dims ds) = fst ` set ?dimcols" by simp
    with noidx have "''index'' \<notin> fst ` set (ds_dims ds)" by auto
    from squeeze_index_absent [OF this] show ?thesis by simp
  qed
  then obtain ds' where sq: "squeeze_index ds = Inr ds'"
    and vars': "fst ` set (ds_vars ds') = fst ` set (ds_vars ds)" by blast
  have "\<forall>c \<in> set vc. \<exists>arr. named_array ds' attrs nm c = Inr arr"
    using cols_vc vars vars' by (intro ballI named_array_ok) blast
  from collect_ok [OF this] obtain res where "collect (named_array ds' attrs nm) vc = Inr res" ..
  with vc rm fd sq show ?thesis
    by (simp add: to_arrays_def Let_def)
qed


lemma quantity_as_xr_foreign:
  assumes sc: "sc kind = Some m" and m: "m nm = Inr raw"
    and t: "t = (case raw of Dict d \<Rightarrow> from_records d | Frame t' \<Rightarrow> t')"
    and units: "\<forall>us. map_of t ''unit'' = Some us \<longrightarrow> (\<exists>u. set us = {u})"
    and kind: "kind \<notin> {''par'', ''equ'', ''var''}"
  shows "quantity_as_xr sc nm kind = Inl KeyError"
proof -
  from strip_unit_ok [OF units] obtain attrs
    where st: "strip_unit t = Inr (filter (\<lambda>(c, cs). c \<noteq> ''unit'') t, attrs)" ..
  from st have "strip_unit (case raw of Dict d \<Rightarrow> from_records d | Frame t' \<Rightarrow> t')
      = Inr (filter (\<lambda>(c, cs). c \<noteq> ''unit'') t, attrs)" by (simp only: t)
  from quantity_as_xr_after_strip [of sc kind m nm raw, OF sc m this] to_arrays_foreign [OF kind]
  show ?thesis by simp
qed

lemma quantity_as_xr_accepts:
  assumes sc: "sc kind = Some m" and m: "m nm = Inr raw"
    and t: "t = (case raw of Dict d \<Rightarrow> from_records d | Frame t' \<Rightarrow> t')"
    and units: "\<forall>us. map_of t ''unit'' = Some us \<longrightarrow> (\<exists>u. set us = {u})"
    and kind: "kind \<in> {''par'', ''equ'', ''var''}"
    and vc: "vc = (if kind = ''par'' then [''value''] else [''lvl'', ''mrg''])"
    and has: "set vc \<subseteq> fst ` set t"
    and dist: "distinct (map fst t)" and noidx: "''index'' \<notin> fst ` set t"
    and pos: "0 < n" and rect: "\<forall>(c, cs) \<in> set t. length cs = n"
    and rows: "distinct (index_tuples (filter (\<lambda>(c, cs). c \<noteq> ''unit'' \<and> c \<notin> set vc) t) n)"
  shows "\<exists>res. quantity_as_xr sc nm kind = Inr res \<and> map fst res = vc"
proof -
  let ?data = "filter (\<lambda>(c, cs). c \<noteq> ''unit'') t"
  from strip_unit_ok [OF units] obtain attrs
    where st: "strip_unit t = Inr (?data, attrs)" ..
  from st have "strip_unit (case raw of Dict d \<Rightarrow> from_records d | Frame t' \<Rightarrow> t')
      = Inr (?data, attrs)" by (simp only: t)
  from quantity_as_xr_after_strip [of sc kind m nm raw, OF sc m this]
  have q: "quantity_as_xr sc nm kind = to_arrays ?data attrs nm kind" .
  from value_columns_tag [OF kind] vc
  have tab: "map_of value_columns_table kind = Some vc" by simp
  from vc have nu: "''unit'' \<notin> set vc" by (simp split: if_splits)
  have has': "set vc \<subseteq> fst ` set ?data"
  proof
    fix c assume c: "c \<in> set vc"
    with has obtain cs where "(c, cs) \<in> set t" by auto
    moreover from c nu have "c \<noteq> ''unit''" by auto
    ultimately have "(c, cs) \<in> set ?data" by simp
    then show "c \<in> fst ` set ?data" by force
  qed
  from dist have dist': "distinct (map fst ?data)" by (rule distinct_map_filter)
  from noidx have noidx': "''index'' \<notin> fst ` set ?data" by auto
  from rect have rect': "\<forall>(c, cs) \<in> set ?data. length cs = n" by auto
  have "filter (\<lambda>(c, cs). c \<notin> set vc) ?data
          = filter (\<lambda>(c, cs). c \<noteq> ''unit'' \<and> c \<notin> set vc) t"
    by (simp add: case_prod_unfold)
  with rows have rows': "distinct (index_tuples (filter (\<lambda>(c, cs). c \<notin> set vc) ?data) n)"
    by simp
  from to_arrays_accepts [OF tab dist' noidx' rect' pos has' rows', of attrs nm]
  obtain res where r: "to_arrays ?data attrs nm kind = Inr res" ..
  from to_arrays_keys [OF r] vc have "map fst res = vc" by simp
  with r q show ?thesis by simp
qed

subsection \<open>Kinds and value columns\<close>

text \<open>
  Claim C7, as the code has it. The loader accepts only the tags \<^verbatim>\<open>par\<close>, \<^verbatim>\<open>equ\<close> and
  \<^verbatim>\<open>var\<close>. First, whenever \<open>quantity_as_xr\<close> returns, the kind is one of these tags and
  the keys of the returned mapping are the value columns of the kind: \<^verbatim>\<open>value\<close> for
  \<^verbatim>\<open>par\<close>, and \<^verbatim>\<open>lvl\<close>, \<^verbatim>\<open>mrg\<close> for \<^verbatim>\<open>equ\<close> and \<^verbatim>\<open>var\<close>. Second, for any other tag,
  when the scenario answers it with data whose unit column, if there is one, holds one
  value, so that nothing has raised before, the lookup of the value columns raises
  KeyError. Third, each of the three tags is accepted: the loader returns a mapping
  with these keys for every table of \<open>n > 0\<close> rows with distinct column names, none of
  them \<^verbatim>\<open>index\<close>, that holds the value columns of the kind, whose unit column, if there
  is one, holds one value, and whose rows carry different tuples of dimension labels.
\<close>

theorem quantity_as_xr_keys:
  "(\<forall>res. quantity_as_xr sc nm kind = Inr res \<longrightarrow>
       kind \<in> {''par'', ''equ'', ''var''}
       \<and> map fst res = (if kind = ''par'' then [''value''] else [''lvl'', ''mrg'']))
   \<and> (sc kind = Some m \<and> m nm = Inr raw
        \<and> t = (case raw of Dict d \<Rightarrow> from_records d | Frame t' \<Rightarrow> t')
        \<and> (\<forall>us. map_of t ''unit'' = Some us \<longrightarrow> (\<exists>u. set us = {u}))
        \<and> kind \<notin> {''par'', ''equ'', ''var''}
       \<longrightarrow> quantity_as_xr sc nm kind = Inl KeyError)
   \<and> (sc kind = Some m \<and> m nm = Inr raw
        \<and> t = (case raw of Dict d \<Rightarrow> from_records d | Frame t' \<Rightarrow> t')
        \<and> (\<forall>us. map_of t ''unit'' = Some us \<longrightarrow> (\<exists>u. set us = {u}))
        \<and> kind \<in> {''par'', ''equ'', ''var''}
        \<and> vc = (if kind = ''par'' then [''value''] else [''lvl'', ''mrg''])
        \<and> set vc \<subseteq> fst ` set t
        \<and> distinct (map fst t) \<and> ''index'' \<notin> fst ` set t
        \<and> 0 < n \<and> (\<forall>(c, cs) \<in> set t. length cs = n)
        \<and> distinct (index_tuples (filter (\<lambda>(c, cs). c \<noteq> ''unit'' \<and> c \<notin> set vc) t) n)
       \<longrightarrow> (\<exists>res. quantity_as_xr sc nm kind = Inr res \<and> map fst res = vc))"
proof (intro conjI impI allI)
  fix res
  assume r: "quantity_as_xr sc nm kind = Inr res"
  from quantity_as_xr_to_arrays [OF r] obtain data attrs
    where "to_arrays data attrs nm kind = Inr res" by blast
  from to_arrays_keys [OF this]
  show "kind \<in> {''par'', ''equ'', ''var''}"
    and "map fst res = (if kind = ''par'' then [''value''] else [''lvl'', ''mrg''])"
    by simp_all
next
  assume "sc kind = Some m \<and> m nm = Inr raw
        \<and> t = (case raw of Dict d \<Rightarrow> from_records d | Frame t' \<Rightarrow> t')
        \<and> (\<forall>us. map_of t ''unit'' = Some us \<longrightarrow> (\<exists>u. set us = {u}))
        \<and> kind \<notin> {''par'', ''equ'', ''var''}"
  then show "quantity_as_xr sc nm kind = Inl KeyError"
    by (elim conjE) (rule quantity_as_xr_foreign [of sc kind m nm raw t])
next
  assume "sc kind = Some m \<and> m nm = Inr raw
        \<and> t = (case raw of Dict d \<Rightarrow> from_records d | Frame t' \<Rightarrow> t')
        \<and> (\<forall>us. map_of t ''unit'' = Some us \<longrightarrow> (\<exists>u. set us = {u}))
        \<and> kind \<in> {''par'', ''equ'', ''var''}
        \<and> vc = (if kind = ''par'' then [''value''] else [''lvl'', ''mrg''])
        \<and> set vc \<subseteq> fst ` set t
        \<and> distinct (map fst t) \<and> ''index'' \<notin> fst ` set t
        \<and> 0 < n \<and> (\<forall>(c, cs) \<in> set t. length cs = n)
        \<and> distinct (index_tuples (filter (\<lambda>(c, cs). c \<noteq> ''unit'' \<and> c \<notin> set vc) t) n)"
  then show "\<exists>res. quantity_as_xr sc nm kind = Inr res \<and> map fst res = vc"
    by (elim conjE) (rule quantity_as_xr_accepts [of sc kind m nm raw t vc n])
qed

text \<open>
  The theorem at a table with one dimension \<^verbatim>\<open>a\<close> and two rows: returned for the tag
  \<^verbatim>\<open>equ\<close>, rejected with KeyError for the tag \<^verbatim>\<open>variable\<close>, accepted for the tag
  \<^verbatim>\<open>var\<close>.
\<close>

theorem quantity_as_xr_keys_witness:
  "quantity_as_xr (\<lambda>k. if k = ''equ'' then Some (\<lambda>n. Inr (Frame [(''a'', [1::nat, 2]), (''lvl'', [5, 6]), (''mrg'', [0, 0])])) else None)
      ''q'' ''equ'' =
     Inr [(''lvl'', \<lparr>da_name = Some ''q'', da_dims = [(''a'', 2)], da_attrs = [],
                     da_cells = [([Label 1], 5), ([Label 2], 6)]\<rparr>),
          (''mrg'', \<lparr>da_name = Some ''q'', da_dims = [(''a'', 2)], da_attrs = [],
                     da_cells = [([Label 1], 0), ([Label 2], 0)]\<rparr>)]
   \<and> ''equ'' \<in> {''par'', ''equ'', ''var''}
   \<and> quantity_as_xr (\<lambda>k. Some (\<lambda>n. Inr (Frame [(''a'', [1::nat, 2]), (''lvl'', [5, 6]), (''mrg'', [0, 0])])))
        ''q'' ''variable'' = Inl KeyError
   \<and> (\<exists>res. quantity_as_xr (\<lambda>k. if k = ''var'' then Some (\<lambda>n. Inr (Frame [(''a'', [1::nat, 2]), (''lvl'', [5, 6]), (''mrg'', [0, 0])])) else None)
          ''q'' ''var'' = Inr res
        \<and> map fst res = [''lvl'', ''mrg''])"
proof -
  let ?t = "[(''a'', [1::nat, 2]), (''lvl'', [5, 6]), (''mrg'', [0, 0])]"
  let ?m = "\<lambda>n::string. Inr (Frame ?t) :: error + nat data"
  let ?equ = "\<lambda>k. if k = ''equ'' then Some ?m else None"
  let ?any = "\<lambda>k::string. Some ?m"
  let ?var = "\<lambda>k. if k = ''var'' then Some ?m else None"
  have r: "quantity_as_xr ?equ ''q'' ''equ'' =
     Inr [(''lvl'', \<lparr>da_name = Some ''q'', da_dims = [(''a'', 2)], da_attrs = [],
                     da_cells = [([Label 1], 5), ([Label 2], 6)]\<rparr>),
          (''mrg'', \<lparr>da_name = Some ''q'', da_dims = [(''a'', 2)], da_attrs = [],
                     da_cells = [([Label 1], 0), ([Label 2], 0)]\<rparr>)]"
    by (simp add: loader_defs upt_rec)
  have a: "''equ'' \<in> {''par'', ''equ'', ''var''}"
    using quantity_as_xr_keys [where sc = ?equ and nm = "''q''" and kind = "''equ''"] r by blast
  have b: "quantity_as_xr ?any ''q'' ''variable'' = Inl KeyError"
    using quantity_as_xr_keys [where sc = ?any and nm = "''q''" and kind = "''variable''"
            and m = ?m and raw = "Frame ?t" and t = ?t]
    by simp
  have tup: "distinct (index_tuples [(''a'', [1::nat, 2])] 2)"
    by (simp add: index_tuples_def upt_rec)
  have c: "\<exists>res. quantity_as_xr ?var ''q'' ''var'' = Inr res \<and> map fst res = [''lvl'', ''mrg'']"
    using quantity_as_xr_keys [where sc = ?var and nm = "''q''" and kind = "''var''"
            and m = ?m and raw = "Frame ?t" and t = ?t and vc = "[''lvl'', ''mrg'']" and n = 2] tup
    by simp
  from r a b c show ?thesis by simp
qed

text \<open>
  The names are not the spelled-out ones: the tag \<^verbatim>\<open>parameter\<close> is rejected with
  KeyError even by a scenario that answers it, and the mapping returned for an equation
  has the keys \<^verbatim>\<open>lvl\<close> and \<^verbatim>\<open>mrg\<close>.
\<close>

theorem quantity_as_xr_spec_names:
  "quantity_as_xr (\<lambda>k. Some (\<lambda>n. Inr (Dict [(''value'', 3::nat), (''unit'', 7)]))) ''q'' ''parameter''
     = Inl KeyError
   \<and> quantity_as_xr (\<lambda>k. Some (\<lambda>n. Inr (Dict [(''lvl'', 5::nat), (''mrg'', 0)]))) ''q'' ''equ''
     = Inr [(''lvl'', \<lparr>da_name = Some ''q'', da_dims = [], da_attrs = [], da_cells = [([], 5)]\<rparr>),
            (''mrg'', \<lparr>da_name = Some ''q'', da_dims = [], da_attrs = [], da_cells = [([], 0)]\<rparr>)]"
  by (simp add: loader_defs)

subsection \<open>Units\<close>

text \<open>
  Claim C8. Let the scenario return a table with a \<^verbatim>\<open>unit\<close> column. When the column
  holds two or more distinct values, \<open>quantity_as_xr\<close> ends with AssertionError. When
  it holds exactly one value \<open>u\<close>, every array that \<open>quantity_as_xr\<close> returns has the
  attributes \<^verbatim>\<open>{'unit': u}\<close>, and \<^verbatim>\<open>unit\<close> is not among its dimensions.
\<close>

theorem quantity_as_xr_unit:
  assumes "sc kind = Some m" and "m nm = Inr (Frame t)" and "map_of t ''unit'' = Some us"
  shows "(2 \<le> card (set us) \<longrightarrow> quantity_as_xr sc nm kind = Inl AssertionError)
       \<and> (set us = {u} \<longrightarrow>
            (\<forall>res. quantity_as_xr sc nm kind = Inr res \<longrightarrow>
               (\<forall>(c, arr) \<in> set res.
                  da_attrs arr = [(''unit'', u)] \<and> ''unit'' \<notin> fst ` set (da_dims arr))))"
proof (intro conjI impI allI)
  assume "2 \<le> card (set us)"
  from strip_unit_many [OF assms(3) this] assms(1,2)
  show "quantity_as_xr sc nm kind = Inl AssertionError"
    by (simp add: quantity_as_xr_def)
next
  fix res
  assume one: "set us = {u}" and r: "quantity_as_xr sc nm kind = Inr res"
  let ?data = "filter (\<lambda>(c, cs). c \<noteq> ''unit'') t"
  from strip_unit_one [OF assms(3) one] assms(1,2) r
  have ta: "to_arrays ?data [(''unit'', u)] nm kind = Inr res"
    by (simp add: quantity_as_xr_def)
  have nu: "''unit'' \<notin> insert ''index'' (fst ` set ?data)" by auto
  show "\<forall>(c, arr) \<in> set res. da_attrs arr = [(''unit'', u)] \<and> ''unit'' \<notin> fst ` set (da_dims arr)"
  proof (clarify, rule conjI)
    fix c arr
    assume mem: "(c, arr) \<in> set res"
    from to_arrays_fields [OF ta mem] show "da_attrs arr = [(''unit'', u)]" by simp
    from to_arrays_fields [OF ta mem] nu show "''unit'' \<notin> fst ` set (da_dims arr)" by blast
  qed
qed

text \<open>
  The theorem at a parameter over \<^verbatim>\<open>a\<close> with two rows: with units 7 and 8 the
  assertion fails, with unit 7 in both rows the array carries it.
\<close>

theorem quantity_as_xr_unit_witness:
  "quantity_as_xr (\<lambda>k. if k = ''par'' then Some (\<lambda>n. Inr (Frame [(''a'', [1::nat, 2]), (''unit'', [7, 8]), (''value'', [10, 20])])) else None)
      ''q'' ''par'' = Inl AssertionError
   \<and> quantity_as_xr (\<lambda>k. if k = ''par'' then Some (\<lambda>n. Inr (Frame [(''a'', [1::nat, 2]), (''unit'', [7, 7]), (''value'', [10, 20])])) else None)
      ''q'' ''par'' =
       Inr [(''value'', \<lparr>da_name = Some ''q'', da_dims = [(''a'', 2)], da_attrs = [(''unit'', 7)],
                         da_cells = [([Label 1], 10), ([Label 2], 20)]\<rparr>)]"
proof -
  let ?m2 = "\<lambda>n::string. Inr (Frame [(''a'', [1::nat, 2]), (''unit'', [7, 8]), (''value'', [10, 20])]) :: error + nat data"
  let ?sc2 = "\<lambda>k. if k = ''par'' then Some ?m2 else None"
  let ?m1 = "\<lambda>n::string. Inr (Frame [(''a'', [1::nat, 2]), (''unit'', [7, 7]), (''value'', [10, 20])]) :: error + nat data"
  let ?sc1 = "\<lambda>k. if k = ''par'' then Some ?m1 else None"
  have two: "2 \<le> card (set [7::nat, 8])" by simp
  have "quantity_as_xr ?sc2 ''q'' ''par'' = Inl AssertionError"
    using quantity_as_xr_unit [of ?sc2 "''par''" ?m2 "''q''" _ "[7, 8]" 7] two by simp
  moreover have r: "quantity_as_xr ?sc1 ''q'' ''par'' =
       Inr [(''value'', \<lparr>da_name = Some ''q'', da_dims = [(''a'', 2)], da_attrs = [(''unit'', 7)],
                         da_cells = [([Label 1], 10), ([Label 2], 20)]\<rparr>)]"
    using quantity_as_xr_unit [of ?sc1 "''par''" ?m1 "''q''" _ "[7, 7]" 7]
    by (simp add: loader_defs upt_rec)
  ultimately show ?thesis by simp
qed

subsection \<open>Scalars\<close>

lemma scalar_record_shapes:
  assumes "distinct (map fst d)" and "map_of d ''value'' = Some v"
    and "set (map fst d) \<subseteq> {''value'', ''unit''}"
  shows "d = [(''value'', v)]
       \<or> (\<exists>u. d = [(''value'', v), (''unit'', u)] \<or> d = [(''unit'', u), (''value'', v)])"
proof (cases d)
  case Nil
  with assms(2) show ?thesis by simp
next
  case d1: (Cons p1 r1)
  obtain k1 x1 where p1: "p1 = (k1, x1)" by (cases p1)
  show ?thesis
  proof (cases r1)
    case Nil
    with assms d1 p1 show ?thesis by (auto split: if_splits)
  next
    case d2: (Cons p2 r2)
    obtain k2 x2 where p2: "p2 = (k2, x2)" by (cases p2)
    show ?thesis
    proof (cases r2)
      case Nil
      with assms d1 d2 p1 p2 show ?thesis by (auto split: if_splits)
    next
      case (Cons p3 r3)
      with assms(1,3) d1 d2 p1 p2 have False by (cases p3) auto
      then show ?thesis ..
    qed
  qed
qed

text \<open>
  Claim C9. Let the scenario return, for a parameter, a record with a \<^verbatim>\<open>value\<close> and
  no key other than \<^verbatim>\<open>value\<close> and \<^verbatim>\<open>unit\<close>. Then \<open>quantity_as_xr\<close> returns one array
  under the key \<^verbatim>\<open>value\<close>: it has no dimension (the placeholder \<^verbatim>\<open>index\<close> of length one
  is dropped), holds the value as its only cell, is named after the quantity and
  carries the unit, if the record has one.
\<close>

theorem quantity_as_xr_scalar:
  assumes "sc ''par'' = Some m" and "m nm = Inr (Dict d)"
    and "distinct (map fst d)" and "map_of d ''value'' = Some v"
    and "set (map fst d) \<subseteq> {''value'', ''unit''}"
  shows "quantity_as_xr sc nm ''par'' =
           Inr [(''value'',
                 \<lparr>da_name = Some nm, da_dims = [],
                  da_attrs = (case map_of d ''unit'' of None \<Rightarrow> [] | Some u \<Rightarrow> [(''unit'', u)]),
                  da_cells = [([], v)]\<rparr>)]"
proof -
  from scalar_record_shapes [OF assms(3,4,5)]
  consider "d = [(''value'', v)]"
    | u where "d = [(''value'', v), (''unit'', u)]"
    | u where "d = [(''unit'', u), (''value'', v)]"
    by blast
  then show ?thesis
  proof cases
    case 1
    with assms(1,2) show ?thesis by (simp add: loader_defs)
  next
    case 2
    with assms(1,2) show ?thesis by (simp add: loader_defs)
  next
    case 3
    with assms(1,2) show ?thesis by (simp add: loader_defs)
  qed
qed

text \<open>The theorem at the record \<^verbatim>\<open>{'value': 3, 'unit': 7}\<close>.\<close>

theorem quantity_as_xr_scalar_witness:
  "quantity_as_xr (\<lambda>k. if k = ''par'' then Some (\<lambda>n. Inr (Dict [(''value'', 3::nat), (''unit'', 7)])) else None)
      ''q'' ''par'' =
     Inr [(''value'',
           \<lparr>da_name = Some ''q'', da_dims = [], da_attrs = [(''unit'', 7)], da_cells = [([], 3)]\<rparr>)]"
  using quantity_as_xr_scalar
    [of "\<lambda>k. if k = ''par'' then Some (\<lambda>n. Inr (Dict [(''value'', 3::nat), (''unit'', 7)])) else None"
        "\<lambda>n. Inr (Dict [(''value'', 3::nat), (''unit'', 7)])" "''q''"
        "[(''value'', 3::nat), (''unit'', 7)]" 3]
  by simp

end
